theory Spec2Isabelle
  imports Main "HOL-Library.Sublist"
begin

section \<open>Python string and list primitives used by the monitor\<close>

text \<open>
  A Python \<open>str\<close> is modelled as a \<open>string\<close> whose characters are code points
  below 256. On that range \<open>str.lower()\<close> moves \<open>A..Z\<close> and the Latin-1 capitals
  (192..222 except the multiplication sign 215) up by 32 and leaves every other
  character alone.
\<close>

definition lower_char :: "char \<Rightarrow> char" where
  "lower_char c =
     (let n = (of_char c :: nat)
      in if (65 \<le> n \<and> n \<le> 90) \<or> (192 \<le> n \<and> n \<le> 222 \<and> n \<noteq> 215)
         then char_of (n + 32) else c)"

definition lower :: "string \<Rightarrow> string" where
  "lower s = map lower_char s"

text \<open>\<open>a in b\<close> on two strings: \<open>a\<close> occurs in \<open>b\<close> as a contiguous run.\<close>

definition str_in :: "string \<Rightarrow> string \<Rightarrow> bool" where
  "str_in a b = sublist a b"

definition startswith :: "string \<Rightarrow> string \<Rightarrow> bool" where
  "startswith s p = prefix p s"

text \<open>The characters \<open>str.strip()\<close> and \<open>int()\<close> treat as white space.\<close>

definition isspace :: "char \<Rightarrow> bool" where
  "isspace c =
     (let n = (of_char c :: nat)
      in (9 \<le> n \<and> n \<le> 13) \<or> (28 \<le> n \<and> n \<le> 32) \<or> n = 133 \<or> n = 160)"

definition strip :: "string \<Rightarrow> string" where
  "strip s = rev (dropWhile isspace (rev (dropWhile isspace s)))"

text \<open>\<open>s.split(sep)\<close> for a one-character separator.\<close>

fun split :: "char \<Rightarrow> string \<Rightarrow> string list" where
  "split sep [] = [[]]"
| "split sep (c # cs) =
     (if c = sep then [] # split sep cs
      else (case split sep cs of
              [] \<Rightarrow> [[c]]
            | p # ps \<Rightarrow> (c # p) # ps))"

datatype exn =
    TerminationConditionMet (condition: string) (details: "string option")
  | ValueError
  | IndexError

text \<open>\<open>xs[i]\<close> for a non-negative index: out of range raises \<open>IndexError\<close>.\<close>

definition index :: "'a list \<Rightarrow> nat \<Rightarrow> exn + 'a" where
  "index xs i = (if i < length xs then Inr (xs ! i) else Inl IndexError)"

text \<open>
  \<open>int(s)\<close> on a string: white space around, an optional sign, then decimal digits in
  which single underscores may separate digits; anything else raises \<open>ValueError\<close>.
  (The interpreter's optional limit on the number of digits is not modelled.)
\<close>

definition isdigit :: "char \<Rightarrow> bool" where
  "isdigit c = (let n = (of_char c :: nat) in 48 \<le> n \<and> n \<le> 57)"

fun digits_ok :: "string \<Rightarrow> bool" where
  "digits_ok [] = False"
| "digits_ok [c] = isdigit c"
| "digits_ok (c # d # r) =
     (isdigit c \<and> (if d = CHR ''_'' then digits_ok r else digits_ok (d # r)))"

fun digits_value :: "int \<Rightarrow> string \<Rightarrow> int" where
  "digits_value acc [] = acc"
| "digits_value acc (c # r) =
     (if c = CHR ''_'' then digits_value acc r
      else digits_value (acc * 10 + (int (of_char c) - 48)) r)"

definition py_int :: "string \<Rightarrow> exn + int" where
  "py_int s =
     (let t = strip s;
          body = (case t of [] \<Rightarrow> []
                  | c # r \<Rightarrow> if c = CHR ''-'' \<or> c = CHR ''+'' then r else t);
          sign = (case t of [] \<Rightarrow> 1
                  | c # r \<Rightarrow> if c = CHR ''-'' then - 1 else (1::int))
      in if digits_ok body then Inr (sign * digits_value 0 body) else Inl ValueError)"

text \<open>The slices \<open>xs[-n:]\<close> and \<open>xs[-a:-b]\<close> (for positive \<open>n\<close>, \<open>a\<close>, \<open>b\<close>).\<close>

definition last_n :: "nat \<Rightarrow> 'a list \<Rightarrow> 'a list" where
  "last_n n xs = drop (length xs - n) xs"

definition slice_neg :: "nat \<Rightarrow> nat \<Rightarrow> 'a list \<Rightarrow> 'a list" where
  "slice_neg a b xs = drop (length xs - a) (take (length xs - b) xs)"

text \<open>\<open>d.get(k, default)\<close> on a dictionary.\<close>

definition dict_get :: "('k \<rightharpoonup> 'v) \<Rightarrow> 'k \<Rightarrow> 'v \<Rightarrow> 'v" where
  "dict_get d k dflt = (case d k of None \<Rightarrow> dflt | Some v \<Rightarrow> v)"

section \<open>The monitor's data (types.py, base.py)\<close>

text \<open>
  The content of an entry is any value; the monitor only ever applies \<open>str\<close> to it.
  The model keeps the content type open and takes the stringification as the
  parameter \<open>str\<close> of every operation that uses it. The timestamp is the clock's
  reading at the call; no operation inspects it, and its type is left open too.
\<close>

record ('c, 't) LogEntry =
  role :: string
  content :: 'c
  timestamp :: 't

text \<open>
  The fields of \<open>BaseMonitor\<close>. The three \<open>threading.Event\<close> objects are their
  flags; \<open>stdout\<close> collects the lines printed, among them those of the default
  notification hook.
\<close>

record ('c, 't) monitor =
  termination_flag :: bool
  pause_flag :: bool
  resume_flag :: bool
  permission_granted :: "bool option"
  logs :: "('c, 't) LogEntry list"
  current_permission_condition :: "string option"
  conditions :: "string \<rightharpoonup> string list"
  stdout :: "string list"

section \<open>BaseMonitor (base.py)\<close>

definition terminate :: "string \<Rightarrow> string option \<Rightarrow> ('c, 't) monitor \<Rightarrow> (exn + unit) \<times> ('c, 't) monitor" where
  "terminate cond dets s =
     (Inl (TerminationConditionMet cond dets), s\<lparr>termination_flag := True\<rparr>)"

definition notify_permission_needed :: "string \<Rightarrow> ('c, 't) monitor \<Rightarrow> ('c, 't) monitor" where
  "notify_permission_needed cond s =
     s\<lparr>stdout := stdout s @ [''Permission required: '' @ cond]\<rparr>"

definition request_permission :: "string \<Rightarrow> ('c, 't) monitor \<Rightarrow> ('c, 't) monitor" where
  "request_permission cond s =
     notify_permission_needed cond
       (s\<lparr>current_permission_condition := Some cond,
          pause_flag := True,
          resume_flag := False\<rparr>)"

definition grant_permission :: "bool \<Rightarrow> ('c, 't) monitor \<Rightarrow> ('c, 't) monitor" where
  "grant_permission granted s =
     s\<lparr>permission_granted := Some granted,
       resume_flag := True,
       pause_flag := False\<rparr>"

text \<open>
  \<open>log\<close> is the one operation that can block. It is split at its suspension point:
  \<open>log\<close> runs the call up to \<open>_resume_flag.wait()\<close> and \<open>log_after_wait\<close> is the
  rest of the body. \<open>event_wait\<close> is \<open>Event.wait()\<close>: it returns once the flag is
  set and otherwise has not returned (\<open>None\<close>). A result \<open>None\<close> of \<open>log\<close> or
  \<open>log_wakeup\<close> is a caller still blocked inside the wait; \<open>log_wakeup\<close> is what
  the blocked caller does when it is next scheduled. Each operation of the other
  threads is one atomic step on the monitor.
\<close>

definition event_wait :: "bool \<Rightarrow> bool option" where
  "event_wait flag = (if flag then Some True else None)"

definition format_condition :: "string option \<Rightarrow> string" where
  "format_condition c = (case c of None \<Rightarrow> ''None'' | Some t \<Rightarrow> t)"

definition log_after_wait :: "('c, 't) monitor \<Rightarrow> exn + unit" where
  "log_after_wait s =
     (if permission_granted s \<noteq> Some True
      then Inl (TerminationConditionMet
                  (''Permission denied for: '' @ format_condition (current_permission_condition s))
                  None)
      else Inr ())"

definition log_wakeup :: "('c, 't) monitor \<Rightarrow> (exn + unit) option" where
  "log_wakeup s =
     (case event_wait (resume_flag s) of
        None \<Rightarrow> None
      | Some _ \<Rightarrow> Some (log_after_wait s))"

definition log :: "string \<Rightarrow> 'c \<Rightarrow> 't \<Rightarrow> ('c, 't) monitor \<Rightarrow> (exn + unit) option \<times> ('c, 't) monitor" where
  "log r c now s =
     (let log_entry = \<lparr>role = r, content = c, timestamp = now\<rparr>;
          s1 = s\<lparr>logs := logs s @ [log_entry]\<rparr>
      in if pause_flag s1
         then (let s2 = s1\<lparr>stdout := stdout s1 @ [''Agent paused: Waiting for permission...'']\<rparr>
               in (log_wakeup s2, s2))
         else (Some (Inr ()), s1))"

section \<open>LocalMonitor (monitors/local.py)\<close>

definition detect_loop :: "('c \<Rightarrow> string) \<Rightarrow> ('c, 't) monitor \<Rightarrow> bool" where
  "detect_loop str s =
     (if length (logs s) < 6 then False
      else (let actions = filter (\<lambda>l. role l = ''assistant'') (last_n 6 (logs s))
            in if length actions < 6 then False
               else (let last_3 = map (\<lambda>a. str (content a)) (last_n 3 actions);
                         prev_3 = map (\<lambda>a. str (content a)) (slice_neg 6 3 actions)
                     in last_3 = prev_3)))"

text \<open>
  The inner loop over \<open>recent_logs\<close>: the stringified content of the first entry in
  which the lowercased condition occurs, if there is one.
\<close>

fun scan_recent_logs :: "('c \<Rightarrow> string) \<Rightarrow> string \<Rightarrow> ('c, 't) LogEntry list \<Rightarrow> string option" where
  "scan_recent_logs str cond [] = None"
| "scan_recent_logs str cond (l # rest) =
     (let log_str = str (content l)
      in if str_in (lower cond) (lower log_str) then Some log_str
         else scan_recent_logs str cond rest)"

definition parse_limit :: "string \<Rightarrow> exn + int" where
  "parse_limit cond =
     (case index (split (CHR ''>'') cond) 1 of
        Inl e \<Rightarrow> Inl e
      | Inr t \<Rightarrow> py_int (strip t))"

definition action_count :: "('c, 't) monitor \<Rightarrow> int" where
  "action_count s = int (length (filter (\<lambda>l. role l = ''assistant'') (logs s)))"

text \<open>The loop over the \<open>terminate_if\<close> rules, one rule per step.\<close>

fun check_termination_loop ::
  "('c \<Rightarrow> string) \<Rightarrow> string list \<Rightarrow> ('c, 't) monitor \<Rightarrow> (exn + unit) \<times> ('c, 't) monitor" where
  "check_termination_loop str [] s = (Inr (), s)"
| "check_termination_loop str (cond # rest) s =
     (let recent_logs = last_n 10 (logs s)
      in case scan_recent_logs str cond recent_logs of
           Some log_str \<Rightarrow> terminate cond (Some (''Detected in log: '' @ log_str)) s
         | None \<Rightarrow>
             if cond = ''agent seems stuck in a loop'' \<and> detect_loop str s
             then terminate cond None s
             else if startswith cond ''the number of actions is >''
             then (case parse_limit cond of
                     Inr limit \<Rightarrow>
                       if action_count s > limit then terminate cond None s
                       else check_termination_loop str rest s
                   | Inl e \<Rightarrow>
                       if e = ValueError \<or> e = IndexError
                       then check_termination_loop str rest s
                       else (Inl e, s))
             else check_termination_loop str rest s)"

definition check_termination_conditions ::
  "('c \<Rightarrow> string) \<Rightarrow> ('c, 't) monitor \<Rightarrow> (exn + unit) \<times> ('c, 't) monitor" where
  "check_termination_conditions str s =
     (if logs s = [] then (Inr (), s)
      else check_termination_loop str (dict_get (conditions s) ''terminate_if'' []) s)"

fun check_permission_loop :: "string \<Rightarrow> string list \<Rightarrow> ('c, 't) monitor \<Rightarrow> ('c, 't) monitor" where
  "check_permission_loop log_str [] s = s"
| "check_permission_loop log_str (cond # rest) s =
     (if str_in (lower cond) (lower log_str) then request_permission cond s
      else check_permission_loop log_str rest s)"

definition check_permission_conditions :: "('c \<Rightarrow> string) \<Rightarrow> ('c, 't) monitor \<Rightarrow> ('c, 't) monitor" where
  "check_permission_conditions str s =
     (if logs s = [] then s
      else (let last_log = last (logs s);
                log_str = str (content last_log)
            in check_permission_loop log_str (dict_get (conditions s) ''ask_permission_if'' []) s))"

text \<open>One pass through the body of the \<open>while\<close> loop of \<open>_monitor_loop\<close>.\<close>

definition monitor_loop_body ::
  "('c \<Rightarrow> string) \<Rightarrow> ('c, 't) monitor \<Rightarrow> (exn + unit) \<times> ('c, 't) monitor" where
  "monitor_loop_body str s =
     (case check_termination_conditions str s of
        (Inl e, s1) \<Rightarrow> (Inl e, s1)
      | (Inr _, s1) \<Rightarrow>
          if \<not> pause_flag s1 then (Inr (), check_permission_conditions str s1)
          else (Inr (), s1))"


text \<open>
  \<open>__init__\<close>, with the rule sets that \<open>_load_conditions\<close> read from the
  configuration file given as \<open>conds\<close>.
\<close>

definition init :: "(string \<rightharpoonup> string list) \<Rightarrow> ('c, 't) monitor" where
  "init conds =
     \<lparr>termination_flag = False, pause_flag = False, resume_flag = False,
      permission_granted = None, logs = [], current_permission_condition = None,
      conditions = conds, stdout = []\<rparr>"

section \<open>Vocabulary of the properties\<close>

text \<open>
  \<open>substring_hit\<close> names the test \<open>condition.lower() in log_str.lower()\<close> on one
  entry. \<open>rule_fires\<close> collects the three ways in which one rule of \<open>terminate_if\<close>
  ends the check on a non-empty log: a hit among the last ten entries, the loop
  sentinel with the heuristic, the counting rule with its threshold exceeded.
\<close>

definition substring_hit :: "('c \<Rightarrow> string) \<Rightarrow> string \<Rightarrow> ('c, 't) LogEntry \<Rightarrow> bool" where
  "substring_hit str cond l = str_in (lower cond) (lower (str (content l)))"

definition rule_fires :: "('c \<Rightarrow> string) \<Rightarrow> ('c, 't) monitor \<Rightarrow> string \<Rightarrow> bool" where
  "rule_fires str s cond =
     ((\<exists>l \<in> set (last_n 10 (logs s)). substring_hit str cond l)
      \<or> (cond = ''agent seems stuck in a loop'' \<and> detect_loop str s)
      \<or> (startswith cond ''the number of actions is >''
          \<and> (case parse_limit cond of Inr limit \<Rightarrow> action_count s > limit | Inl e \<Rightarrow> False)))"

section \<open>Auxiliary facts\<close>

lemma scan_recent_logs_None:
  "scan_recent_logs str c ls = None \<longleftrightarrow> (\<forall>l \<in> set ls. \<not> substring_hit str c l)"
  by (induction ls) (simp_all add: substring_hit_def Let_def)


lemma py_int_error: "py_int t = Inl e \<Longrightarrow> e = ValueError"
  by (auto simp: py_int_def Let_def split: if_splits)

lemma parse_limit_error: "parse_limit c = Inl e \<Longrightarrow> e = ValueError \<or> e = IndexError"
  by (auto simp: parse_limit_def index_def dest: py_int_error split: if_splits sum.splits)

lemma loop_skip:
  "\<not> rule_fires str s c \<Longrightarrow> check_termination_loop str (c # rest) s = check_termination_loop str rest s"
  using parse_limit_error [of c]
  by (auto simp: rule_fires_def Let_def scan_recent_logs_None [symmetric] split: option.splits sum.splits)

lemma loop_skip_prefix:
  "\<forall>c \<in> set pre. \<not> rule_fires str s c
   \<Longrightarrow> check_termination_loop str (pre @ rest) s = check_termination_loop str rest s"
proof (induction pre)
  case Nil
  show ?case by simp
next
  case (Cons c pre)
  then show ?case using loop_skip [of str s c "pre @ rest"] by simp
qed

lemma loop_fire:
  "rule_fires str s c \<Longrightarrow>
   check_termination_loop str (c # rest) s =
     terminate c (map_option ((@) ''Detected in log: '') (scan_recent_logs str c (last_n 10 (logs s)))) s"
proof (cases "scan_recent_logs str c (last_n 10 (logs s))")
  case (Some t)
  then show ?thesis by (simp add: Let_def)
next
  case None
  assume f: "rule_fires str s c"
  from None have "\<not> (\<exists>l \<in> set (last_n 10 (logs s)). substring_hit str c l)"
    by (simp add: scan_recent_logs_None)
  with f have "(c = ''agent seems stuck in a loop'' \<and> detect_loop str s)
      \<or> (startswith c ''the number of actions is >''
          \<and> (case parse_limit c of Inr limit \<Rightarrow> action_count s > limit | Inl e \<Rightarrow> False))"
    unfolding rule_fires_def by blast
  with None show ?thesis
    by (auto simp: Let_def split: sum.splits)
qed

lemma loop_result:
  "check_termination_loop str rules s = (Inr (), s)
   \<or> (\<exists>c \<in> set rules. rule_fires str s c \<and> (\<exists>d. check_termination_loop str rules s = terminate c d s))"
proof (induction rules)
  case Nil
  show ?case by simp
next
  case (Cons c rules)
  show ?case
  proof (cases "rule_fires str s c")
    case True
    then show ?thesis using loop_fire [of str s c rules] by auto
  next
    case False
    then show ?thesis using loop_skip [of str s c rules] Cons.IH by auto
  qed
qed

lemma check_permission_loop_find:
  "check_permission_loop log_str rules s =
     (case find (\<lambda>cond. str_in (lower cond) (lower log_str)) rules of
        None \<Rightarrow> s | Some cond \<Rightarrow> request_permission cond s)"
  by (induction rules) simp_all

lemma check_permission_loop_logs:
  "check_permission_loop log_str rules (s\<lparr>logs := ls\<rparr>) = (check_permission_loop log_str rules s)\<lparr>logs := ls\<rparr>"
  by (induction rules) (simp_all add: request_permission_def notify_permission_needed_def)

lemma length_last_n: "length (last_n n xs) = min n (length xs)"
  by (simp add: last_n_def)

lemma check_termination_state:
  "fst (check_termination_conditions str s) = Inr () \<Longrightarrow> check_termination_conditions str s = (Inr (), s)"
  using loop_result [of str "dict_get (conditions s) ''terminate_if'' []" s]
  by (auto simp: check_termination_conditions_def terminate_def split: if_splits)

lemma sentinel_not_counting:
  "\<not> startswith ''agent seems stuck in a loop'' ''the number of actions is >''"
  by (simp add: startswith_def)

lemma loop_terminate_fires:
  "check_termination_loop str rules s = terminate c d s \<Longrightarrow> c \<in> set rules \<and> rule_fires str s c"
  using loop_result [of str rules s] by (auto simp: terminate_def)


lemma check_termination_at_rule:
  "logs s \<noteq> [] \<Longrightarrow> dict_get (conditions s) ''terminate_if'' [] = pre @ c # post
   \<Longrightarrow> \<forall>c' \<in> set pre. \<not> rule_fires str s c'
   \<Longrightarrow> check_termination_conditions str s = check_termination_loop str (c # post) s"
  using loop_skip_prefix [of pre str s "c # post"] by (simp add: check_termination_conditions_def)


section \<open>The loop heuristic\<close>

text \<open>
  C4. For every log, \<open>_detect_loop\<close> returns true exactly when the assistant-role
  entries among the six most recent entries of the whole log number at least six
  (so all six are assistant entries) and the stringified contents of the first three
  of them equal those of the last three, position by position. With fewer than six
  assistant entries in that window it returns false.
\<close>

theorem C4_detect_loop_window:
  "detect_loop str s \<longleftrightarrow>
     (let actions = filter (\<lambda>l. role l = ''assistant'') (last_n 6 (logs s))
      in 6 \<le> length actions
         \<and> map (\<lambda>a. str (content a)) (take 3 actions) = map (\<lambda>a. str (content a)) (drop 3 actions))"
proof -
  let ?acts = "filter (\<lambda>l. role l = ''assistant'') (last_n 6 (logs s))"
  have le: "length ?acts \<le> 6"
    using length_filter_le [of _ "last_n 6 (logs s)"] by (simp add: length_last_n)
  have le2: "length ?acts \<le> length (logs s)"
    using length_filter_le [of _ "last_n 6 (logs s)"] by (simp add: length_last_n)
  show ?thesis
  proof (cases "6 \<le> length ?acts")
    case True
    with le have len: "length ?acts = 6" by simp
    then have "last_n 3 ?acts = drop 3 ?acts" "slice_neg 6 3 ?acts = take 3 ?acts"
      by (simp_all add: last_n_def slice_neg_def)
    moreover from True le2 have "\<not> length (logs s) < 6" by simp
    ultimately show ?thesis using True
      by (simp add: detect_loop_def Let_def eq_commute)
  next
    case False
    then show ?thesis by (simp add: detect_loop_def Let_def)
  qed
qed

section \<open>The empty log\<close>

text \<open>
  C10. For every rule set, on an empty log the termination check and the permission
  check both return at once: no termination, no pause, nothing notified, the monitor
  unchanged; and so does a whole pass of the background loop. This holds also for a
  counting rule with a negative threshold such as \<open>the number of actions is > -1\<close>,
  whose comparison \<open>0 > -1\<close> would hold.
\<close>

theorem C10_empty_log_no_action:
  "logs s = [] \<Longrightarrow>
     check_termination_conditions str s = (Inr (), s)
     \<and> check_permission_conditions str s = s
     \<and> monitor_loop_body str s = (Inr (), s)"
  by (simp add: check_termination_conditions_def check_permission_conditions_def monitor_loop_body_def)

theorem C10_empty_log_no_action_witness:
  "logs (init [''terminate_if'' \<mapsto> [''the number of actions is > -1''], ''ask_permission_if'' \<mapsto> ['''']] :: (string, nat) monitor) = []
   \<and> parse_limit ''the number of actions is > -1'' = Inr (- 1)
   \<and> action_count (init [''terminate_if'' \<mapsto> [''the number of actions is > -1''], ''ask_permission_if'' \<mapsto> ['''']] :: (string, nat) monitor) > - 1
   \<and> check_termination_conditions id (init [''terminate_if'' \<mapsto> [''the number of actions is > -1''], ''ask_permission_if'' \<mapsto> ['''']] :: (string, nat) monitor)
       = (Inr (), init [''terminate_if'' \<mapsto> [''the number of actions is > -1''], ''ask_permission_if'' \<mapsto> ['''']])
   \<and> check_permission_conditions id (init [''terminate_if'' \<mapsto> [''the number of actions is > -1''], ''ask_permission_if'' \<mapsto> ['''']] :: (string, nat) monitor)
       = init [''terminate_if'' \<mapsto> [''the number of actions is > -1''], ''ask_permission_if'' \<mapsto> ['''']]"
proof -
  let ?s = "init [''terminate_if'' \<mapsto> [''the number of actions is > -1''], ''ask_permission_if'' \<mapsto> ['''']] :: (string, nat) monitor"
  have h: "logs ?s = []" by (simp add: init_def)
  have p: "parse_limit ''the number of actions is > -1'' = Inr (- 1)" by code_simp
  have a: "action_count ?s > - 1" by (simp add: action_count_def h)
  from h p a C10_empty_log_no_action [OF h, of id] show ?thesis by simp
qed

section \<open>Pause and resume\<close>

text \<open>
  C1. In a state with the pause flag set, take a call of \<open>log\<close> that is blocked in
  the wait (its result is \<open>None\<close>, and it stays blocked as long as nothing else
  happens). After \<open>grant_permission(True)\<close> the blocked call is released and returns
  without raising; after \<open>grant_permission(False)\<close> it is released and raises
  \<open>TerminationConditionMet\<close>, whose condition names the pending permission condition.
\<close>

theorem C1_grant_permission_releases_blocked_log:
  "pause_flag s \<Longrightarrow> log r c now s = (None, s') \<Longrightarrow>
     log_wakeup s' = None
     \<and> log_wakeup (grant_permission True s') = Some (Inr ())
     \<and> log_wakeup (grant_permission False s') =
         Some (Inl (TerminationConditionMet
                      (''Permission denied for: '' @ format_condition (current_permission_condition s'))
                      None))"
  by (auto simp: log_def Let_def log_wakeup_def event_wait_def log_after_wait_def grant_permission_def
      split: if_splits)

theorem C1_grant_permission_releases_blocked_log_witness:
  "pause_flag (request_permission ''rm -rf'' (init [''ask_permission_if'' \<mapsto> [''rm -rf'']]) :: (string, nat) monitor)
   \<and> fst (log ''assistant'' ''next step'' 1
            (request_permission ''rm -rf'' (init [''ask_permission_if'' \<mapsto> [''rm -rf'']]) :: (string, nat) monitor)) = None
   \<and> log_wakeup (grant_permission True (snd (log ''assistant'' ''next step'' 1
            (request_permission ''rm -rf'' (init [''ask_permission_if'' \<mapsto> [''rm -rf'']]) :: (string, nat) monitor))))
       = Some (Inr ())
   \<and> log_wakeup (grant_permission False (snd (log ''assistant'' ''next step'' 1
            (request_permission ''rm -rf'' (init [''ask_permission_if'' \<mapsto> [''rm -rf'']]) :: (string, nat) monitor))))
       = Some (Inl (TerminationConditionMet ''Permission denied for: rm -rf'' None))"
proof -
  let ?s = "request_permission ''rm -rf'' (init [''ask_permission_if'' \<mapsto> [''rm -rf'']]) :: (string, nat) monitor"
  let ?s' = "snd (log ''assistant'' ''next step'' 1 ?s)"
  have h1: "pause_flag ?s"
    by (simp add: request_permission_def notify_permission_needed_def init_def)
  have h2: "log ''assistant'' ''next step'' 1 ?s = (None, ?s')"
    by (simp add: log_def Let_def log_wakeup_def event_wait_def request_permission_def
        notify_permission_needed_def init_def)
  have h3: "format_condition (current_permission_condition ?s') = ''rm -rf''"
    by (simp add: log_def Let_def format_condition_def request_permission_def
        notify_permission_needed_def init_def)
  from h2 have h4: "fst (log ''assistant'' ''next step'' 1 ?s) = None" by (metis fst_conv)
  from C1_grant_permission_releases_blocked_log [OF h1 h2] h1 h3 h4 show ?thesis by simp
qed

text \<open>
  C9, as the code has it. \<open>request_permission\<close> has no test of the pause flag: in
  every state it stores the condition, sets the pause flag, clears the resume flag and
  calls the notification hook. Here a monitor paused on \<open>send email\<close> is asked
  again, for \<open>rm -rf\<close>: the pending condition is overwritten and a second
  notification is printed.
\<close>

theorem C9_request_permission_while_paused_counterexample:
  "pause_flag (request_permission ''send email'' (init Map.empty) :: (string, nat) monitor)
   \<and> current_permission_condition (request_permission ''send email'' (init Map.empty) :: (string, nat) monitor)
       = Some ''send email''
   \<and> current_permission_condition
       (request_permission ''rm -rf'' (request_permission ''send email'' (init Map.empty)) :: (string, nat) monitor)
       = Some ''rm -rf''
   \<and> stdout (request_permission ''send email'' (init Map.empty) :: (string, nat) monitor)
       = [''Permission required: send email'']
   \<and> stdout (request_permission ''rm -rf'' (request_permission ''send email'' (init Map.empty)) :: (string, nat) monitor)
       = [''Permission required: send email'', ''Permission required: rm -rf'']"
  by (simp add: request_permission_def notify_permission_needed_def init_def)

text \<open>
  C9, amended. The guard against asking twice is in the background loop: with the
  pause flag set, a pass of the loop body is the termination check alone. The
  permission check is not run, so \<open>request_permission\<close> is not called, and the
  monitor is left as it was, apart from the termination flag when a termination rule
  fires. \<open>request_permission\<close> itself always makes the four changes listed above.
\<close>

theorem C9_paused_loop_skips_permission_check:
  "(pause_flag s \<longrightarrow>
      monitor_loop_body str s = check_termination_conditions str s
      \<and> (snd (monitor_loop_body str s) = s \<or> snd (monitor_loop_body str s) = s\<lparr>termination_flag := True\<rparr>))
   \<and> request_permission c s =
       s\<lparr>current_permission_condition := Some c, pause_flag := True, resume_flag := False,
         stdout := stdout s @ [''Permission required: '' @ c]\<rparr>"
proof -
  have r: "check_termination_conditions str s = (Inr (), s)
           \<or> (\<exists>c d. check_termination_conditions str s = terminate c d s)"
    using loop_result [of str "dict_get (conditions s) ''terminate_if'' []" s]
    by (auto simp: check_termination_conditions_def)
  have "pause_flag s \<Longrightarrow> monitor_loop_body str s = check_termination_conditions str s"
    using r by (auto simp: monitor_loop_body_def terminate_def)
  moreover have "pause_flag s \<Longrightarrow>
      snd (check_termination_conditions str s) = s
      \<or> snd (check_termination_conditions str s) = s\<lparr>termination_flag := True\<rparr>"
    using r by (auto simp: terminate_def)
  moreover have "request_permission c s =
       s\<lparr>current_permission_condition := Some c, pause_flag := True, resume_flag := False,
         stdout := stdout s @ [''Permission required: '' @ c]\<rparr>"
    by (simp add: request_permission_def notify_permission_needed_def)
  ultimately show ?thesis by simp
qed

theorem C9_paused_loop_skips_permission_check_witness:
  "pause_flag (request_permission ''rm -rf''
      ((init [''ask_permission_if'' \<mapsto> [''rm -rf'']])
         \<lparr>logs := [\<lparr>role = ''assistant'', content = ''rm -rf /'', timestamp = 0::nat\<rparr>]\<rparr>))
   \<and> monitor_loop_body id (request_permission ''rm -rf''
      ((init [''ask_permission_if'' \<mapsto> [''rm -rf'']])
         \<lparr>logs := [\<lparr>role = ''assistant'', content = ''rm -rf /'', timestamp = 0::nat\<rparr>]\<rparr>))
     = (Inr (), request_permission ''rm -rf''
      ((init [''ask_permission_if'' \<mapsto> [''rm -rf'']])
         \<lparr>logs := [\<lparr>role = ''assistant'', content = ''rm -rf /'', timestamp = 0::nat\<rparr>]\<rparr>))"
proof -
  let ?s = "request_permission ''rm -rf''
      ((init [''ask_permission_if'' \<mapsto> [''rm -rf'']])
         \<lparr>logs := [\<lparr>role = ''assistant'', content = ''rm -rf /'', timestamp = 0::nat\<rparr>]\<rparr>)"
  have h: "pause_flag ?s"
    by (simp add: request_permission_def notify_permission_needed_def)
  have t: "check_termination_conditions id ?s = (Inr (), ?s)"
    by (simp add: check_termination_conditions_def request_permission_def
        notify_permission_needed_def init_def dict_get_def)
  from C9_paused_loop_skips_permission_check [of ?s id] h t show ?thesis by simp
qed

section \<open>The permission check\<close>

text \<open>
  C3. On a non-empty log the permission check requests permission for the first rule
  of \<open>ask_permission_if\<close>, in list order, whose lowercased text occurs in the
  lowercased stringified content of the newest entry, and does nothing when there is
  no such rule. The older entries have no influence: the check on \<open>older @ [e]\<close>
  does what the check on \<open>[e]\<close> alone does.
\<close>

theorem C3_permission_checks_newest_entry_only:
  "(logs s \<noteq> [] \<longrightarrow>
      check_permission_conditions str s =
        (case find (\<lambda>cond. str_in (lower cond) (lower (str (content (last (logs s))))))
                   (dict_get (conditions s) ''ask_permission_if'' []) of
           None \<Rightarrow> s
         | Some cond \<Rightarrow> request_permission cond s))
   \<and> check_permission_conditions str (s\<lparr>logs := older @ [e]\<rparr>) =
       (check_permission_conditions str (s\<lparr>logs := [e]\<rparr>))\<lparr>logs := older @ [e]\<rparr>"
  by (simp add: check_permission_conditions_def Let_def check_permission_loop_find
        check_permission_loop_logs [where s = s and ls = "older @ [e]"]
        check_permission_loop_logs [where s = s and ls = "[e]"]
        request_permission_def notify_permission_needed_def split: option.splits)

theorem C3_permission_checks_newest_entry_only_witness:
  "logs ((init [''ask_permission_if'' \<mapsto> [''sudo'', ''rm -rf'', ''rm'']])
          \<lparr>logs := [\<lparr>role = ''assistant'', content = ''sudo make install'', timestamp = 0::nat\<rparr>,
                    \<lparr>role = ''assistant'', content = ''I will run RM -RF /'', timestamp = 1\<rparr>]\<rparr>) \<noteq> []
   \<and> check_permission_conditions id
        ((init [''ask_permission_if'' \<mapsto> [''sudo'', ''rm -rf'', ''rm'']])
          \<lparr>logs := [\<lparr>role = ''assistant'', content = ''sudo make install'', timestamp = 0::nat\<rparr>,
                    \<lparr>role = ''assistant'', content = ''I will run RM -RF /'', timestamp = 1\<rparr>]\<rparr>)
      = request_permission ''rm -rf''
        ((init [''ask_permission_if'' \<mapsto> [''sudo'', ''rm -rf'', ''rm'']])
          \<lparr>logs := [\<lparr>role = ''assistant'', content = ''sudo make install'', timestamp = 0::nat\<rparr>,
                    \<lparr>role = ''assistant'', content = ''I will run RM -RF /'', timestamp = 1\<rparr>]\<rparr>)"
proof -
  let ?s = "(init [''ask_permission_if'' \<mapsto> [''sudo'', ''rm -rf'', ''rm'']])
          \<lparr>logs := [\<lparr>role = ''assistant'', content = ''sudo make install'', timestamp = 0::nat\<rparr>,
                    \<lparr>role = ''assistant'', content = ''I will run RM -RF /'', timestamp = 1\<rparr>]\<rparr>"
  have h: "logs ?s \<noteq> []" by simp
  have rules: "dict_get (conditions ?s) ''ask_permission_if'' [] = [''sudo'', ''rm -rf'', ''rm'']"
    by (simp add: init_def dict_get_def)
  have newest: "id (content (last (logs ?s))) = ''I will run RM -RF /''" by simp
  have first: "find (\<lambda>cond. str_in (lower cond) (lower ''I will run RM -RF /'')) [''sudo'', ''rm -rf'', ''rm'']
                 = Some ''rm -rf''"
    by code_simp
  from C3_permission_checks_newest_entry_only [of ?s id] h
  have "check_permission_conditions id ?s =
        (case find (\<lambda>cond. str_in (lower cond) (lower (id (content (last (logs ?s))))))
                   (dict_get (conditions ?s) ''ask_permission_if'' []) of
           None \<Rightarrow> ?s
         | Some cond \<Rightarrow> request_permission cond ?s)"
    by blast
  then have "check_permission_conditions id ?s = request_permission ''rm -rf'' ?s"
    unfolding rules newest first by simp
  with h show ?thesis by blast
qed

section \<open>Repetition between other entries\<close>

text \<open>
  C5. The docstring of \<open>_detect_loop\<close> promises to detect that the last three
  actions repeat the three before them, and the demonstration driver, which logs a
  user entry after every assistant entry, expects repeated actions to trigger it. On
  the log below the assistant entries are A, B, C, A, B, C with one user entry between
  the two triples; the window of six entries then holds only five assistant entries
  and \<open>_detect_loop\<close> returns false.
\<close>

theorem C5_interleaved_repetition_not_detected:
  "map content (filter (\<lambda>l. role l = ''assistant'')
     (logs ((init Map.empty)
        \<lparr>logs := [\<lparr>role = ''assistant'', content = ''A'', timestamp = 0::nat\<rparr>,
                  \<lparr>role = ''assistant'', content = ''B'', timestamp = 1\<rparr>,
                  \<lparr>role = ''assistant'', content = ''C'', timestamp = 2\<rparr>,
                  \<lparr>role = ''user'', content = ''ok'', timestamp = 3\<rparr>,
                  \<lparr>role = ''assistant'', content = ''A'', timestamp = 4\<rparr>,
                  \<lparr>role = ''assistant'', content = ''B'', timestamp = 5\<rparr>,
                  \<lparr>role = ''assistant'', content = ''C'', timestamp = 6\<rparr>]\<rparr>)))
     = [''A'', ''B'', ''C'', ''A'', ''B'', ''C'']
   \<and> \<not> detect_loop id
     ((init Map.empty)
        \<lparr>logs := [\<lparr>role = ''assistant'', content = ''A'', timestamp = 0::nat\<rparr>,
                  \<lparr>role = ''assistant'', content = ''B'', timestamp = 1\<rparr>,
                  \<lparr>role = ''assistant'', content = ''C'', timestamp = 2\<rparr>,
                  \<lparr>role = ''user'', content = ''ok'', timestamp = 3\<rparr>,
                  \<lparr>role = ''assistant'', content = ''A'', timestamp = 4\<rparr>,
                  \<lparr>role = ''assistant'', content = ''B'', timestamp = 5\<rparr>,
                  \<lparr>role = ''assistant'', content = ''C'', timestamp = 6\<rparr>]\<rparr>)"
  by (simp add: detect_loop_def last_n_def Let_def)

section \<open>The termination check\<close>



section \<open>The loop sentinel\<close>

text \<open>
  C6, as the code has it. The inner loop over the recent entries runs for every rule,
  the sentinel included. Here the only entry contains the sentinel's text; the loop
  heuristic does not hold (the log has one entry), and the check terminates under the
  sentinel rule, with the entry as details.
\<close>

theorem C6_sentinel_text_in_entry_counterexample:
  "\<not> detect_loop id
      ((init [''terminate_if'' \<mapsto> [''agent seems stuck in a loop'']])
         \<lparr>logs := [\<lparr>role = ''user'', content = ''The agent seems stuck in a loop again'', timestamp = 0::nat\<rparr>]\<rparr>)
   \<and> check_termination_conditions id
      ((init [''terminate_if'' \<mapsto> [''agent seems stuck in a loop'']])
         \<lparr>logs := [\<lparr>role = ''user'', content = ''The agent seems stuck in a loop again'', timestamp = 0::nat\<rparr>]\<rparr>)
     = (Inl (TerminationConditionMet ''agent seems stuck in a loop''
               (Some ''Detected in log: The agent seems stuck in a loop again'')),
        (init [''terminate_if'' \<mapsto> [''agent seems stuck in a loop'']])
         \<lparr>logs := [\<lparr>role = ''user'', content = ''The agent seems stuck in a loop again'', timestamp = 0::nat\<rparr>],
           termination_flag := True\<rparr>)"
proof -
  let ?c = "''agent seems stuck in a loop''"
  let ?s = "(init [''terminate_if'' \<mapsto> [?c]])
         \<lparr>logs := [\<lparr>role = ''user'', content = ''The agent seems stuck in a loop again'', timestamp = 0::nat\<rparr>]\<rparr>"
  have no_loop: "\<not> detect_loop id ?s" by (simp add: detect_loop_def)
  have rules: "dict_get (conditions ?s) ''terminate_if'' [] = [?c]"
    by (simp add: init_def dict_get_def)
  have fires: "rule_fires id ?s ?c" by code_simp
  have scan: "scan_recent_logs id ?c (last_n 10 (logs ?s))
                = Some ''The agent seems stuck in a loop again''"
    by code_simp
  from loop_fire [OF fires, of "[]"] scan rules
  have "check_termination_conditions id ?s =
          (Inl (TerminationConditionMet ?c (Some ''Detected in log: The agent seems stuck in a loop again'')),
           ?s\<lparr>termination_flag := True\<rparr>)"
    by (simp add: check_termination_conditions_def terminate_def)
  with no_loop show ?thesis by simp
qed

text \<open>
  C6, amended. On a non-empty log, with no rule before the sentinel firing, the check
  terminates under the rule \<open>agent seems stuck in a loop\<close> exactly when the loop
  heuristic holds or the sentinel's text occurs, case-insensitively, in the
  stringified content of one of the ten most recent entries. When the heuristic holds
  and no such entry exists, the termination carries no details.
\<close>

theorem C6_sentinel_is_also_substring_matched:
  assumes "logs s \<noteq> []"
    and "dict_get (conditions s) ''terminate_if'' [] = pre @ ''agent seems stuck in a loop'' # post"
    and "\<forall>c' \<in> set pre. \<not> rule_fires str s c'"
  shows "((\<exists>d. check_termination_conditions str s =
                (Inl (TerminationConditionMet ''agent seems stuck in a loop'' d), s\<lparr>termination_flag := True\<rparr>))
          \<longleftrightarrow> detect_loop str s
               \<or> (\<exists>l \<in> set (last_n 10 (logs s)). substring_hit str ''agent seems stuck in a loop'' l))
       \<and> (detect_loop str s
            \<and> (\<forall>l \<in> set (last_n 10 (logs s)). \<not> substring_hit str ''agent seems stuck in a loop'' l)
          \<longrightarrow> check_termination_conditions str s =
                (Inl (TerminationConditionMet ''agent seems stuck in a loop'' None), s\<lparr>termination_flag := True\<rparr>))"
proof -
  let ?c = "''agent seems stuck in a loop''"
  have at: "check_termination_conditions str s = check_termination_loop str (?c # post) s"
    using assms by (rule check_termination_at_rule)
  have fires: "rule_fires str s ?c \<longleftrightarrow>
      detect_loop str s \<or> (\<exists>l \<in> set (last_n 10 (logs s)). substring_hit str ?c l)"
    using sentinel_not_counting by (auto simp: rule_fires_def)
  have "(\<exists>d. check_termination_loop str (?c # post) s = terminate ?c d s) \<longleftrightarrow> rule_fires str s ?c"
    using loop_fire [of str s ?c post] loop_terminate_fires [of str "?c # post" s ?c] by blast
  with at fires have one: "(\<exists>d. check_termination_conditions str s =
                (Inl (TerminationConditionMet ?c d), s\<lparr>termination_flag := True\<rparr>))
          \<longleftrightarrow> detect_loop str s \<or> (\<exists>l \<in> set (last_n 10 (logs s)). substring_hit str ?c l)"
    by (simp add: terminate_def)
  have two: "check_termination_conditions str s =
                (Inl (TerminationConditionMet ?c None), s\<lparr>termination_flag := True\<rparr>)"
    if "detect_loop str s" "\<forall>l \<in> set (last_n 10 (logs s)). \<not> substring_hit str ?c l"
  proof -
    from that(2) have "scan_recent_logs str ?c (last_n 10 (logs s)) = None"
      by (simp add: scan_recent_logs_None)
    with that(1) at show ?thesis by (simp add: Let_def terminate_def)
  qed
  from one two show ?thesis by blast
qed

theorem C6_sentinel_is_also_substring_matched_witness:
  "detect_loop id
      ((init [''terminate_if'' \<mapsto> [''facebook.com'', ''agent seems stuck in a loop'']])
         \<lparr>logs := [\<lparr>role = ''assistant'', content = ''A'', timestamp = 0::nat\<rparr>,
                   \<lparr>role = ''assistant'', content = ''B'', timestamp = 1\<rparr>,
                   \<lparr>role = ''assistant'', content = ''C'', timestamp = 2\<rparr>,
                   \<lparr>role = ''assistant'', content = ''A'', timestamp = 3\<rparr>,
                   \<lparr>role = ''assistant'', content = ''B'', timestamp = 4\<rparr>,
                   \<lparr>role = ''assistant'', content = ''C'', timestamp = 5\<rparr>]\<rparr>)
   \<and> check_termination_conditions id
      ((init [''terminate_if'' \<mapsto> [''facebook.com'', ''agent seems stuck in a loop'']])
         \<lparr>logs := [\<lparr>role = ''assistant'', content = ''A'', timestamp = 0::nat\<rparr>,
                   \<lparr>role = ''assistant'', content = ''B'', timestamp = 1\<rparr>,
                   \<lparr>role = ''assistant'', content = ''C'', timestamp = 2\<rparr>,
                   \<lparr>role = ''assistant'', content = ''A'', timestamp = 3\<rparr>,
                   \<lparr>role = ''assistant'', content = ''B'', timestamp = 4\<rparr>,
                   \<lparr>role = ''assistant'', content = ''C'', timestamp = 5\<rparr>]\<rparr>)
     = (Inl (TerminationConditionMet ''agent seems stuck in a loop'' None),
        (init [''terminate_if'' \<mapsto> [''facebook.com'', ''agent seems stuck in a loop'']])
         \<lparr>logs := [\<lparr>role = ''assistant'', content = ''A'', timestamp = 0::nat\<rparr>,
                   \<lparr>role = ''assistant'', content = ''B'', timestamp = 1\<rparr>,
                   \<lparr>role = ''assistant'', content = ''C'', timestamp = 2\<rparr>,
                   \<lparr>role = ''assistant'', content = ''A'', timestamp = 3\<rparr>,
                   \<lparr>role = ''assistant'', content = ''B'', timestamp = 4\<rparr>,
                   \<lparr>role = ''assistant'', content = ''C'', timestamp = 5\<rparr>],
           termination_flag := True\<rparr>)"
proof -
  let ?c = "''agent seems stuck in a loop''"
  let ?s = "(init [''terminate_if'' \<mapsto> [''facebook.com'', ?c]])
         \<lparr>logs := [\<lparr>role = ''assistant'', content = ''A'', timestamp = 0::nat\<rparr>,
                   \<lparr>role = ''assistant'', content = ''B'', timestamp = 1\<rparr>,
                   \<lparr>role = ''assistant'', content = ''C'', timestamp = 2\<rparr>,
                   \<lparr>role = ''assistant'', content = ''A'', timestamp = 3\<rparr>,
                   \<lparr>role = ''assistant'', content = ''B'', timestamp = 4\<rparr>,
                   \<lparr>role = ''assistant'', content = ''C'', timestamp = 5\<rparr>]\<rparr>"
  have h1: "logs ?s \<noteq> []" by simp
  have h2: "dict_get (conditions ?s) ''terminate_if'' [] = [''facebook.com''] @ ?c # []"
    by (simp add: init_def dict_get_def)
  have "\<not> rule_fires id ?s ''facebook.com''" by code_simp
  then have h3: "\<forall>c' \<in> set [''facebook.com'']. \<not> rule_fires id ?s c'" by simp
  have h4: "detect_loop id ?s" by code_simp
  have h5: "\<forall>l \<in> set (last_n 10 (logs ?s)). \<not> substring_hit id ?c l" by code_simp
  from C6_sentinel_is_also_substring_matched [OF h1 h2 h3] h4 h5 show ?thesis by simp
qed

section \<open>The counting rule\<close>







end
